theory Spec2Isabelle
  imports Main "HOL-Library.Char_ord" "HOL-Library.List_Lexorder" "HOL-Library.Product_Lexorder"
    "HOL-Library.Multiset"
begin

section \<open>Python string primitives used by the flow-log parser\<close>

text \<open>
  A Python \<open>str\<close> is modelled as a \<^typ>\<open>string\<close>, one \<^typ>\<open>char\<close> per code point, for text
  whose code points lie below 256.  On that range \<open>str.isspace\<close> holds exactly for the code
  points 9-13, 28-32, 133 and 160, and \<open>str.lower\<close> moves A-Z and the Latin-1 capitals
  192-222 (without the multiplication sign 215) up by 32.
\<close>

definition isspace :: "char \<Rightarrow> bool" where
  "isspace c =
     (let n = (of_char c :: nat)
      in (9 \<le> n \<and> n \<le> 13) \<or> (28 \<le> n \<and> n \<le> 32) \<or> n = 133 \<or> n = 160)"

definition lower_char :: "char \<Rightarrow> char" where
  "lower_char c =
     (let n = (of_char c :: nat)
      in if (65 \<le> n \<and> n \<le> 90) \<or> (192 \<le> n \<and> n \<le> 222 \<and> n \<noteq> 215)
         then char_of (n + 32) else c)"

definition str_lower :: "string \<Rightarrow> string" where
  "str_lower s = map lower_char s"

definition str_lstrip :: "string \<Rightarrow> string" where
  "str_lstrip s = dropWhile isspace s"

definition str_rstrip :: "string \<Rightarrow> string" where
  "str_rstrip s = rev (dropWhile isspace (rev s))"

definition str_strip :: "string \<Rightarrow> string" where
  "str_strip s = str_rstrip (str_lstrip s)"

text \<open>\<open>s.split()\<close>: the maximal runs of non-whitespace characters, in order.\<close>

fun split_ws :: "string \<Rightarrow> string \<Rightarrow> string list" where
  "split_ws w [] = (if w = [] then [] else [w])"
| "split_ws w (c # cs) =
     (if isspace c then (if w = [] then split_ws [] cs else w # split_ws [] cs)
      else split_ws (w @ [c]) cs)"

definition str_split :: "string \<Rightarrow> string list" where
  "str_split s = split_ws [] s"

text \<open>\<open>s.split(sep)\<close> for a one-character separator: empty pieces are kept.\<close>

fun split_on :: "char \<Rightarrow> string \<Rightarrow> string \<Rightarrow> string list" where
  "split_on sep w [] = [w]"
| "split_on sep w (c # cs) =
     (if c = sep then w # split_on sep [] cs else split_on sep (w @ [c]) cs)"

definition str_split_sep :: "char \<Rightarrow> string \<Rightarrow> string list" where
  "str_split_sep sep s = split_on sep [] s"

text \<open>\<open>str(n)\<close> of a Python integer, as the f-string \<open>{count}\<close> renders it.\<close>

fun str_nat :: "nat \<Rightarrow> string" where
  "str_nat n =
     (if n < 10 then [char_of (48 + n)]
      else str_nat (n div 10) @ [char_of (48 + n mod 10)])"

definition str_int :: "int \<Rightarrow> string" where
  "str_int i = (if i < 0 then CHR ''-'' # str_nat (nat (- i)) else str_nat (nat i))"

section \<open>Dictionaries\<close>

text \<open>
  A Python dict is an association list in insertion order.  \<open>dict_get\<close> is \<open>d.get(k, dflt)\<close>,
  which never inserts.  \<open>defaultdict_update k f dflt\<close> is the read-modify-write
  \<open>d[k] = f(d[k])\<close> on a \<open>defaultdict\<close> whose factory yields \<open>dflt\<close>: a missing key is created
  at the end, an existing key keeps its position.
\<close>

type_synonym ('k, 'v) dict = "('k \<times> 'v) list"

definition dict_get :: "('k, 'v) dict \<Rightarrow> 'k \<Rightarrow> 'v \<Rightarrow> 'v" where
  "dict_get d k dflt = (case map_of d k of None \<Rightarrow> dflt | Some v \<Rightarrow> v)"

fun defaultdict_update :: "'k \<Rightarrow> ('v \<Rightarrow> 'v) \<Rightarrow> 'v \<Rightarrow> ('k, 'v) dict \<Rightarrow> ('k, 'v) dict" where
  "defaultdict_update k f dflt [] = [(k, f dflt)]"
| "defaultdict_update k f dflt ((k', v) # d) =
     (if k = k' then (k', f v) # d else (k', v) # defaultdict_update k f dflt d)"

section \<open>load_lookup_table\<close>

datatype error = ValueError

type_synonym lookup_key = "string \<times> string"

text \<open>
  The file object is the list of lines it yields.  The loop body strips the line, skips it
  when it is empty or has no comma, and otherwise unpacks the normalised comma-separated
  items into exactly three names; any other number of items raises \<open>ValueError\<close>.
\<close>

fun load_loop :: "string list \<Rightarrow> (lookup_key, string list) dict
    \<Rightarrow> error + (lookup_key, string list) dict" where
  "load_loop [] lookup_dict = Inr lookup_dict"
| "load_loop (raw # rest) lookup_dict =
     (let line = str_strip raw
      in if line = [] \<or> CHR '','' \<notin> set line then load_loop rest lookup_dict
         else (case map (\<lambda>item. str_lower (str_strip item)) (str_split_sep CHR '','' line) of
                 [dstport, protocol, tag] \<Rightarrow>
                   load_loop rest
                     (defaultdict_update (dstport, protocol) (\<lambda>tags. tags @ [tag]) [] lookup_dict)
               | _ \<Rightarrow> Inl ValueError))"

definition load_lookup_table :: "string list \<Rightarrow> error + (lookup_key, string list) dict" where
  "load_lookup_table file = load_loop file []"

section \<open>parse_flow_logs\<close>

text \<open>
  The state of the loop: the two \<open>defaultdict(int)\<close> tables, and the records handed to
  \<open>logging.info\<close> (port, protocol, tags), which is the only effect besides the tables.
\<close>

datatype log_record = Processed string string "string list"

record flow_state =
  tag_counts :: "(string, int) dict"
  port_protocol_counts :: "(lookup_key, int) dict"
  logged :: "log_record list"

text \<open>The conditional expression that maps the protocol number to the protocol name.\<close>

definition protocol_name :: "string \<Rightarrow> string" where
  "protocol_name protocol_num =
     (if protocol_num = ''6'' then ''tcp''
      else if protocol_num = ''17'' then ''udp'' else ''icmp'')"

definition count_tags :: "string list \<Rightarrow> (string, int) dict \<Rightarrow> (string, int) dict" where
  "count_tags tags tc = fold (\<lambda>tag. defaultdict_update tag (\<lambda>n. n + 1) 0) tags tc"

definition process_line :: "(lookup_key, string list) dict \<Rightarrow> int \<Rightarrow> string
    \<Rightarrow> flow_state \<Rightarrow> flow_state" where
  "process_line lookup_dict verbosity raw st =
     (let line = str_strip raw
      in if line = [] then st
         else
           let fields = str_split line
           in if length fields < 14 then st
              else
                let dstport = fields ! 4;
                    protocol_num = fields ! 6;
                    protocol = protocol_name protocol_num;
                    tags = dict_get lookup_dict (dstport, protocol) [''Untagged''];
                    st1 = st\<lparr>tag_counts := count_tags tags (tag_counts st)\<rparr>;
                    st2 = st1\<lparr>port_protocol_counts :=
                            defaultdict_update (dstport, protocol) (\<lambda>n. n + 1) 0
                              (port_protocol_counts st1)\<rparr>
                in if verbosity \<ge> 2
                   then st2\<lparr>logged := logged st2 @ [Processed dstport protocol tags]\<rparr>
                   else st2)"

fun parse_loop :: "(lookup_key, string list) dict \<Rightarrow> int \<Rightarrow> string list
    \<Rightarrow> flow_state \<Rightarrow> flow_state" where
  "parse_loop lookup_dict verbosity [] st = st"
| "parse_loop lookup_dict verbosity (raw # rest) st =
     parse_loop lookup_dict verbosity rest (process_line lookup_dict verbosity raw st)"

definition parse_run :: "string list \<Rightarrow> (lookup_key, string list) dict \<Rightarrow> int \<Rightarrow> flow_state" where
  "parse_run log_file lookup_dict verbosity =
     parse_loop lookup_dict verbosity log_file
       \<lparr>tag_counts = [], port_protocol_counts = [], logged = []\<rparr>"

definition parse_flow_logs :: "string list \<Rightarrow> (lookup_key, string list) dict \<Rightarrow> int
    \<Rightarrow> (string, int) dict \<times> (lookup_key, int) dict" where
  "parse_flow_logs log_file lookup_dict verbosity =
     (let st = parse_run log_file lookup_dict verbosity
      in (tag_counts st, port_protocol_counts st))"

section \<open>save_results\<close>

text \<open>
  The text written to the output file, in the order of the \<open>write\<close> calls.  \<open>sorted\<close> orders
  the items as tuples: strings by code point, tuples lexicographically.
\<close>

definition tag_row :: "string \<times> int \<Rightarrow> string" where
  "tag_row item = (case item of (tag, cnt) \<Rightarrow> tag @ '','' @ str_int cnt @ ''\<newline>'')"

definition port_protocol_row :: "lookup_key \<times> int \<Rightarrow> string" where
  "port_protocol_row item =
     (case item of ((port, protocol), cnt) \<Rightarrow>
        port @ '','' @ protocol @ '','' @ str_int cnt @ ''\<newline>'')"

definition save_results :: "(string, int) dict \<Rightarrow> (lookup_key, int) dict \<Rightarrow> string" where
  "save_results tcs ppcs =
     ''Tag Counts:\<newline>'' @ ''Tag,Count\<newline>''
     @ concat (map tag_row (sort tcs))
     @ ''\<newline>Port/Protocol Combination Counts:\<newline>'' @ ''Port,Protocol,Count\<newline>''
     @ concat (map port_protocol_row (sort ppcs))"

section \<open>Invariants of the parsing loop and example data\<close>

text \<open>Every count stored in either table is at least one.\<close>

definition positive_tables :: "flow_state \<Rightarrow> bool" where
  "positive_tables st \<longleftrightarrow>
     list_all (\<lambda>x. 1 \<le> snd x) (tag_counts st) \<and> list_all (\<lambda>x. 1 \<le> snd x) (port_protocol_counts st)"

text \<open>Two loop states that hold the same two tables; their logs may differ.\<close>

definition same_tables :: "flow_state \<Rightarrow> flow_state \<Rightarrow> bool" where
  "same_tables s t \<longleftrightarrow>
     tag_counts s = tag_counts t \<and> port_protocol_counts s = port_protocol_counts t"

text \<open>
  A lookup table as \<open>load_lookup_table\<close> builds it, and a flow record of fourteen fields with
  the given text at index 4 and index 6.
\<close>

definition example_lookup_dict :: "(lookup_key, string list) dict" where
  "example_lookup_dict =
     [((''25'', ''tcp''), [''sv_p1'', ''email'']), ((''68'', ''udp''), [''sv_p2''])]"

definition example_record :: "string \<Rightarrow> string \<Rightarrow> string" where
  "example_record port num =
     ''2 123 eni-0a 10.0.1.2 '' @ port @ '' 49153 '' @ num @ '' 25 20000 1620 1621 ACCEPT OK -\<newline>''"

section \<open>The lookup file, line by line\<close>

text \<open>The guard of the loader's loop: the stripped line is empty or holds no comma.\<close>

definition skipped_line :: "string \<Rightarrow> bool" where
  "skipped_line raw \<longleftrightarrow> str_strip raw = [] \<or> CHR '','' \<notin> set (str_strip raw)"

text \<open>
  A well-formed lookup line, in the specification's words: three comma-separated fields
  port, protocol and tag, each trimmed and lowercased.  Any other line has no entry.
\<close>

definition lookup_entry :: "string \<Rightarrow> (lookup_key \<times> string) option" where
  "lookup_entry raw =
     (case map (\<lambda>item. str_lower (str_strip item)) (str_split_sep CHR '','' (str_strip raw)) of
        [dstport, protocol, tag] \<Rightarrow> Some ((dstport, protocol), tag)
      | _ \<Rightarrow> None)"

text \<open>
  The specification of the table: for a key, the tags of the well-formed lines with that
  key, in file order.
\<close>

definition tags_in_file_order :: "string list \<Rightarrow> lookup_key \<Rightarrow> string list" where
  "tags_in_file_order lns k = map snd (filter (\<lambda>e. fst e = k) (List.map_filter lookup_entry lns))"

text \<open>
  A lookup file of seven lines: a header, blank and comma-free lines, and the key
  \<open>(25, tcp)\<close> on lines 3 and 7.
\<close>

definition example_lookup_file :: "string list" where
  "example_lookup_file =
     [''dstport,protocol,tag\<newline>'', ''68,udp,sv_P2\<newline>'', ''25,tcp,sv_P1\<newline>'', ''\<newline>'',
      ''no delimiter here\<newline>'', ''443,tcp,sv_P2\<newline>'', '' 25 , TCP , Email \<newline>'']"

section \<open>Properties of dictionaries and of the string primitives\<close>


subsection \<open>Reading and updating a dict\<close>

lemma dict_get_defaultdict_update:
  "dict_get (defaultdict_update k f z d) k' z = (if k' = k then f (dict_get d k z) else dict_get d k' z)"
  by (induction d) (auto simp: dict_get_def)

lemma keys_defaultdict_update:
  "map fst (defaultdict_update k f z d) = (if k \<in> set (map fst d) then map fst d else map fst d @ [k])"
  by (induction d) (auto simp: rev_image_eqI)

lemma sum_defaultdict_update:
  "sum_list (map snd (defaultdict_update k (\<lambda>n. n + 1) (0::int) d)) = sum_list (map snd d) + 1"
  by (induction d) auto

lemma dict_get_count_tags:
  "dict_get (count_tags tags tc) t 0 = dict_get tc t 0 + int (count_list tags t)"
  unfolding count_tags_def
  by (induction tags arbitrary: tc) (auto simp: dict_get_defaultdict_update)

lemma sum_count_tags:
  "sum_list (map snd (count_tags tags tc)) = sum_list (map snd tc) + int (length tags)"
  unfolding count_tags_def
  by (induction tags arbitrary: tc) (auto simp: sum_defaultdict_update)

subsection \<open>The parsing loop, one line at a time\<close>

lemma parse_loop_append:
  "parse_loop lk v (xs @ ys) st = parse_loop lk v ys (parse_loop lk v xs st)"
  by (induction xs arbitrary: st) auto

lemma parse_run_snoc:
  "parse_run (pre @ [raw]) lk v = process_line lk v raw (parse_run pre lk v)"
  by (simp add: parse_run_def parse_loop_append)

lemma split_ws_spaces: "\<forall>c\<in>set ys. isspace c \<Longrightarrow> split_ws w ys = (if w = [] then [] else [w])"
  by (induction ys arbitrary: w) auto

lemma split_ws_append_spaces: "\<forall>c\<in>set ys. isspace c \<Longrightarrow> split_ws w (xs @ ys) = split_ws w xs"
  by (induction xs arbitrary: w) (auto simp: split_ws_spaces)

lemma split_ws_lstrip: "split_ws [] (dropWhile isspace s) = split_ws [] s"
  by (induction s) auto

lemma rstrip_decomp: "str_rstrip s @ rev (takeWhile isspace (rev s)) = s"
proof -
  have "rev (takeWhile isspace (rev s) @ dropWhile isspace (rev s)) = s"
    by simp
  then show ?thesis unfolding str_rstrip_def rev_append .
qed

lemma split_ws_rstrip: "split_ws w (str_rstrip s) = split_ws w s"
proof -
  have "\<forall>c\<in>set (rev (takeWhile isspace (rev s))). isspace c"
    by (auto dest: set_takeWhileD)
  then have "split_ws w (str_rstrip s @ rev (takeWhile isspace (rev s))) = split_ws w (str_rstrip s)"
    by (rule split_ws_append_spaces)
  then show ?thesis by (simp add: rstrip_decomp)
qed

lemma str_split_strip: "str_split (str_strip s) = str_split s"
  by (simp add: str_split_def str_strip_def split_ws_rstrip str_lstrip_def split_ws_lstrip)

lemma strip_empty_split: "str_strip s = [] \<Longrightarrow> str_split s = []"
  using str_split_strip [of s] by (simp add: str_split_def)

lemma process_line_skip:
  "str_strip raw = [] \<or> length (str_split raw) < 14 \<Longrightarrow> process_line lk v raw st = st"
  by (auto simp: process_line_def Let_def str_split_strip)

lemma process_line_classified:
  assumes "14 \<le> length (str_split raw)"
  shows "process_line lk v raw st =
     (let dstport = str_split raw ! 4; protocol = protocol_name (str_split raw ! 6);
          tags = dict_get lk (dstport, protocol) [''Untagged'']
      in \<lparr>tag_counts = count_tags tags (tag_counts st),
          port_protocol_counts = defaultdict_update (dstport, protocol) (\<lambda>n. n + 1) 0 (port_protocol_counts st),
          logged = (if v \<ge> 2 then logged st @ [Processed dstport protocol tags] else logged st)\<rparr>)"
proof -
  from assms have "str_strip raw \<noteq> []" using strip_empty_split [of raw] by auto
  with assms show ?thesis
    by (simp add: process_line_def Let_def str_split_strip)
qed


subsection \<open>Invariants of the two tables\<close>

lemma positive_defaultdict_update:
  "list_all (\<lambda>x. (1::int) \<le> snd x) d
   \<Longrightarrow> list_all (\<lambda>x. 1 \<le> snd x) (defaultdict_update k (\<lambda>n. n + 1) 0 d)"
  by (induction d) auto

lemma positive_count_tags:
  "list_all (\<lambda>x. (1::int) \<le> snd x) tc \<Longrightarrow> list_all (\<lambda>x. 1 \<le> snd x) (count_tags tags tc)"
  unfolding count_tags_def
  by (induction tags arbitrary: tc) (simp_all add: positive_defaultdict_update)

lemma positive_process_line:
  "positive_tables st \<Longrightarrow> positive_tables (process_line lk v raw st)"
  by (simp add: positive_tables_def process_line_def Let_def
        positive_count_tags positive_defaultdict_update)

lemma positive_parse_loop:
  "positive_tables st \<Longrightarrow> positive_tables (parse_loop lk v lns st)"
  by (induction lns arbitrary: st) (simp_all add: positive_process_line)

lemma same_tables_process_line:
  "same_tables s t \<Longrightarrow> same_tables (process_line lk v raw s) (process_line lk w raw t)"
  unfolding same_tables_def process_line_def Let_def by simp

lemma same_tables_parse_loop:
  "same_tables s t \<Longrightarrow> same_tables (parse_loop lk v lns s) (parse_loop lk w lns t)"
  by (induction lns arbitrary: s t) (simp_all add: same_tables_process_line)

lemma dict_get_absent: "k \<notin> fst ` set d \<Longrightarrow> dict_get d k dflt = dflt"
proof -
  assume "k \<notin> fst ` set d"
  then have "map_of d k = None" by (simp add: map_of_eq_None_iff)
  then show ?thesis by (simp add: dict_get_def)
qed

lemma parse_run_append:
  "parse_run (xs @ ys) lk v = parse_loop lk v ys (parse_run xs lk v)"
  by (simp add: parse_run_def parse_loop_append)

subsection \<open>The loading loop, one line at a time\<close>

lemma split_on_no_sep: "sep \<notin> set s \<Longrightarrow> split_on sep w s = [w @ s]"
  by (induction s arbitrary: w) auto

lemma split_on_append_sep:
  "sep \<notin> set x \<Longrightarrow> split_on sep w (x @ sep # rest) = (w @ x) # split_on sep [] rest"
  by (induction x arbitrary: w) auto

lemma split_three:
  assumes "sep \<notin> set a" "sep \<notin> set b" "sep \<notin> set c"
  shows "str_split_sep sep (a @ sep # b @ sep # c) = [a, b, c]"
  using assms by (simp add: str_split_sep_def split_on_append_sep split_on_no_sep)

lemma lookup_entry_skipped: "skipped_line raw \<Longrightarrow> lookup_entry raw = None"
  by (auto simp: skipped_line_def lookup_entry_def str_split_sep_def split_on_no_sep)

lemma load_loop_skipped:
  "skipped_line raw \<Longrightarrow> load_loop (raw # rest) d = load_loop rest d"
  by (simp add: skipped_line_def Let_def)

lemma load_loop_entry:
  assumes "lookup_entry raw = Some ((p, q), t)"
  shows "load_loop (raw # rest) d = load_loop rest (defaultdict_update (p, q) (\<lambda>tags. tags @ [t]) [] d)"
proof -
  from assms have "\<not> skipped_line raw"
    using lookup_entry_skipped [of raw] by auto
  then have ns: "str_strip raw \<noteq> []" "CHR '','' \<in> set (str_strip raw)"
    by (simp_all add: skipped_line_def)
  from assms have "map (\<lambda>item. str_lower (str_strip item)) (str_split_sep CHR '','' (str_strip raw)) = [p, q, t]"
    by (simp add: lookup_entry_def split: list.splits)
  with ns show ?thesis by (simp add: Let_def)
qed

lemma load_loop_raises:
  assumes "\<not> skipped_line raw" "lookup_entry raw = None"
  shows "load_loop (raw # rest) d = Inl ValueError"
  using assms by (simp add: skipped_line_def lookup_entry_def Let_def split: list.splits)

lemma load_loop_append:
  "load_loop (xs @ ys) d = (case load_loop xs d of Inl e \<Rightarrow> Inl e | Inr d' \<Rightarrow> load_loop ys d')"
proof (induction xs arbitrary: d)
  case Nil
  then show ?case by simp
next
  case (Cons raw xs)
  show ?case
  proof (cases "skipped_line raw")
    case True
    then show ?thesis using Cons.IH by (simp add: load_loop_skipped del: load_loop.simps)
  next
    case False
    show ?thesis
    proof (cases "lookup_entry raw")
      case None
      with False show ?thesis by (simp add: load_loop_raises del: load_loop.simps)
    next
      case (Some e)
      obtain p q t where "e = ((p, q), t)" by (metis surj_pair)
      with Some show ?thesis using Cons.IH by (simp add: load_loop_entry del: load_loop.simps)
    qed
  qed
qed

lemma tags_in_file_order_Cons:
  "tags_in_file_order (raw # rest) k =
     (case lookup_entry raw of None \<Rightarrow> [] | Some e \<Rightarrow> if fst e = k then [snd e] else [])
     @ tags_in_file_order rest k"
  by (simp add: tags_in_file_order_def List.map_filter_simps split: option.splits)

lemma load_loop_tags:
  assumes "\<forall>raw\<in>set lns. skipped_line raw \<or> lookup_entry raw \<noteq> None"
  shows "\<exists>d. load_loop lns d0 = Inr d \<and> (\<forall>k. dict_get d k [] = dict_get d0 k [] @ tags_in_file_order lns k)"
  using assms
proof (induction lns arbitrary: d0)
  case Nil
  then show ?case by (simp add: tags_in_file_order_def List.map_filter_simps)
next
  case (Cons raw rest)
  from Cons.prems have rest: "\<forall>raw\<in>set rest. skipped_line raw \<or> lookup_entry raw \<noteq> None"
    by simp
  show ?case
  proof (cases "skipped_line raw")
    case True
    from Cons.IH [OF rest, of d0] obtain d where
      d: "load_loop rest d0 = Inr d" "\<forall>k. dict_get d k [] = dict_get d0 k [] @ tags_in_file_order rest k"
      by blast
    show ?thesis
      using d True by (simp add: load_loop_skipped lookup_entry_skipped tags_in_file_order_Cons del: load_loop.simps)
  next
    case False
    with Cons.prems obtain p q t where e: "lookup_entry raw = Some ((p, q), t)"
      by (metis list.set_intros(1) not_Some_eq surj_pair)
    let ?d1 = "defaultdict_update (p, q) (\<lambda>tags. tags @ [t]) [] d0"
    from Cons.IH [OF rest, of ?d1] obtain d where
      d: "load_loop rest ?d1 = Inr d" "\<forall>k. dict_get d k [] = dict_get ?d1 k [] @ tags_in_file_order rest k"
      by blast
    show ?thesis
      using d e
      by (simp add: load_loop_entry tags_in_file_order_Cons dict_get_defaultdict_update del: load_loop.simps)
  qed
qed


lemma nonempty_defaultdict_update:
  "list_all (\<lambda>x. snd x \<noteq> []) d
   \<Longrightarrow> list_all (\<lambda>x. snd x \<noteq> []) (defaultdict_update k (\<lambda>tags. tags @ [t]) [] d)"
  by (induction d) auto

lemma load_loop_nonempty:
  "load_loop lns d0 = Inr d \<Longrightarrow> list_all (\<lambda>x. snd x \<noteq> []) d0 \<Longrightarrow> list_all (\<lambda>x. snd x \<noteq> []) d"
proof (induction lns arbitrary: d0)
  case Nil
  then show ?case by simp
next
  case (Cons raw rest)
  show ?case
  proof (cases "skipped_line raw")
    case True
    with Cons show ?thesis by (simp add: load_loop_skipped del: load_loop.simps)
  next
    case False
    show ?thesis
    proof (cases "lookup_entry raw")
      case None
      with False Cons.prems show ?thesis by (simp add: load_loop_raises del: load_loop.simps)
    next
      case (Some e)
      obtain p q t where "e = ((p, q), t)" by (metis surj_pair)
      with Some Cons.prems Cons.IH show ?thesis
        by (simp add: load_loop_entry nonempty_defaultdict_update del: load_loop.simps)
    qed
  qed
qed

lemma map_of_nonempty_dict:
  assumes "list_all (\<lambda>x. snd x \<noteq> []) d"
  shows "map_of d k = (if dict_get d k [] = [] then None else Some (dict_get d k []))"
proof (cases "map_of d k")
  case None
  then show ?thesis by (simp add: dict_get_def)
next
  case (Some v)
  then have "(k, v) \<in> set d" by (rule map_of_SomeD)
  with assms have "v \<noteq> []" by (auto simp: list_all_iff)
  with Some show ?thesis by (simp add: dict_get_def)
qed

subsection \<open>Stripping a line of three fields\<close>

lemma comma_not_space: "\<not> isspace CHR '',''"
  by (simp add: isspace_def)

lemma lstrip_comma: "str_lstrip (a @ CHR '','' # r) = str_lstrip a @ CHR '','' # r"
  by (simp add: str_lstrip_def dropWhile_append3 comma_not_space)

lemma rstrip_comma: "str_rstrip (r @ CHR '','' # c) = r @ CHR '','' # str_rstrip c"
  by (simp add: str_rstrip_def dropWhile_append3 comma_not_space)

lemma strip_three_fields:
  "str_strip (a @ CHR '','' # b @ CHR '','' # c) = str_lstrip a @ CHR '','' # b @ CHR '','' # str_rstrip c"
proof -
  have "str_rstrip ((str_lstrip a @ CHR '','' # b) @ CHR '','' # c)
      = (str_lstrip a @ CHR '','' # b) @ CHR '','' # str_rstrip c"
    by (rule rstrip_comma)
  then show ?thesis by (simp add: str_strip_def lstrip_comma)
qed

lemma rstrip_Cons:
  "str_rstrip (x # s) = (if isspace x \<and> (\<forall>y\<in>set s. isspace y) then [] else x # str_rstrip s)"
  by (auto simp: str_rstrip_def dropWhile_append)

lemma lstrip_all_space: "\<forall>y\<in>set s. isspace y \<Longrightarrow> str_lstrip s = []"
  by (simp add: str_lstrip_def)

lemma lstrip_Cons: "str_lstrip (x # s) = (if isspace x then str_lstrip s else x # s)"
  by (simp add: str_lstrip_def)

lemma lstrip_rstrip_commute: "str_lstrip (str_rstrip s) = str_rstrip (str_lstrip s)"
proof (induction s)
  case Nil
  show ?case by (simp add: str_lstrip_def str_rstrip_def)
next
  case (Cons x s)
  show ?case
  proof (cases "isspace x")
    case False
    then have "str_rstrip (x # s) = x # str_rstrip s" by (simp add: rstrip_Cons)
    with False show ?thesis by (simp add: lstrip_Cons)
  next
    case True
    show ?thesis
    proof (cases "\<forall>y\<in>set s. isspace y")
      case all: True
      with True have "str_rstrip (x # s) = []" by (simp add: rstrip_Cons)
      moreover from all True have "str_lstrip (x # s) = []"
        by (simp add: lstrip_all_space)
      moreover have "str_lstrip [] = []" "str_rstrip [] = []"
        by (simp_all add: str_lstrip_def str_rstrip_def)
      ultimately show ?thesis by (simp only:)
    next
      case False
      then have "str_rstrip (x # s) = x # str_rstrip s" by (simp add: rstrip_Cons)
      with True Cons.IH show ?thesis by (simp add: lstrip_Cons)
    qed
  qed
qed

lemma strip_lstrip: "str_strip (str_lstrip s) = str_strip s"
  by (simp add: str_strip_def str_lstrip_def)

lemma rstrip_idem: "str_rstrip (str_rstrip s) = str_rstrip s"
  by (simp add: str_rstrip_def)

lemma strip_rstrip: "str_strip (str_rstrip s) = str_strip s"
  by (simp add: str_strip_def lstrip_rstrip_commute rstrip_idem)

lemma lookup_entry_three_fields:
  assumes "CHR '','' \<notin> set a" "CHR '','' \<notin> set b" "CHR '','' \<notin> set c"
  shows "lookup_entry (a @ '','' @ b @ '','' @ c)
     = Some ((str_lower (str_strip a), str_lower (str_strip b)), str_lower (str_strip c))"
proof -
  have la: "CHR '','' \<notin> set (str_lstrip a)"
    using assms(1) by (auto simp: str_lstrip_def dest: set_dropWhileD)
  have "set (str_rstrip c) \<subseteq> set c"
    by (auto simp: str_rstrip_def dest: set_dropWhileD)
  with assms(3) have rc: "CHR '','' \<notin> set (str_rstrip c)" by auto
  have "str_split_sep CHR '','' (str_strip (a @ '','' @ b @ '','' @ c)) = [str_lstrip a, b, str_rstrip c]"
    using split_three [OF la assms(2) rc] by (simp add: strip_three_fields)
  then show ?thesis
    by (simp add: lookup_entry_def strip_lstrip strip_rstrip)
qed

subsection \<open>Sorting the items of a table\<close>

lemma sorted_map_fst:
  fixes xs :: "('a::linorder \<times> 'b::linorder) list"
  shows "sorted xs \<Longrightarrow> sorted (map fst xs)"
  by (induction xs) (auto simp: less_eq_prod_def)

lemma sort_mset_cong:
  fixes xs ys :: "'a::linorder list"
  assumes "mset xs = mset ys"
  shows "sort xs = sort ys"
  by (rule properties_for_sort) (simp_all add: assms)

lemma distinct_keys_sort:
  fixes xs :: "('a::linorder \<times> 'b::linorder) list"
  assumes "distinct (map fst xs)"
  shows "distinct (map fst (sort xs))"
proof -
  have "mset (map fst (sort xs)) = mset (map fst xs)" by simp
  then show ?thesis using assms by (metis mset_eq_imp_distinct_iff)
qed

subsection \<open>Distinct keys\<close>

text \<open>
  The association lists the two functions build are dicts: no key occurs twice.
\<close>

lemma distinct_defaultdict_update:
  "distinct (map fst d) \<Longrightarrow> distinct (map fst (defaultdict_update k f z d))"
  by (simp add: keys_defaultdict_update)

lemma distinct_count_tags:
  "distinct (map fst tc) \<Longrightarrow> distinct (map fst (count_tags tags tc))"
  unfolding count_tags_def
  by (induction tags arbitrary: tc) (simp_all add: distinct_defaultdict_update)

lemma distinct_process_line:
  "distinct (map fst (tag_counts st)) \<and> distinct (map fst (port_protocol_counts st))
   \<Longrightarrow> distinct (map fst (tag_counts (process_line lk v raw st)))
       \<and> distinct (map fst (port_protocol_counts (process_line lk v raw st)))"
  by (simp add: process_line_def Let_def distinct_count_tags distinct_defaultdict_update)

lemma distinct_parse_loop:
  "distinct (map fst (tag_counts st)) \<and> distinct (map fst (port_protocol_counts st))
   \<Longrightarrow> distinct (map fst (tag_counts (parse_loop lk v lns st)))
       \<and> distinct (map fst (port_protocol_counts (parse_loop lk v lns st)))"
proof (induction lns arbitrary: st)
  case Nil
  then show ?case by simp
next
  case (Cons raw lns)
  from Cons.prems have "distinct (map fst (tag_counts (process_line lk v raw st)))
       \<and> distinct (map fst (port_protocol_counts (process_line lk v raw st)))"
    by (rule distinct_process_line)
  then show ?case using Cons.IH by simp
qed

lemma parse_flow_logs_distinct_keys:
  "distinct (map fst (fst (parse_flow_logs log_file lookup_dict verbosity))) \<and>
   distinct (map fst (snd (parse_flow_logs log_file lookup_dict verbosity)))"
  using distinct_parse_loop [of "\<lparr>tag_counts = [], port_protocol_counts = [], logged = []\<rparr>"
      lookup_dict verbosity log_file]
  by (simp add: parse_flow_logs_def parse_run_def Let_def)

lemma load_loop_distinct_keys:
  "load_loop lns d0 = Inr d \<Longrightarrow> distinct (map fst d0) \<Longrightarrow> distinct (map fst d)"
proof (induction lns arbitrary: d0)
  case Nil
  then show ?case by simp
next
  case (Cons raw rest)
  show ?case
  proof (cases "skipped_line raw")
    case True
    with Cons show ?thesis by (simp add: load_loop_skipped del: load_loop.simps)
  next
    case False
    show ?thesis
    proof (cases "lookup_entry raw")
      case None
      with False Cons.prems show ?thesis by (simp add: load_loop_raises del: load_loop.simps)
    next
      case (Some e)
      obtain p q t where "e = ((p, q), t)" by (metis surj_pair)
      with Some Cons.prems Cons.IH show ?thesis
        by (simp add: load_loop_entry distinct_defaultdict_update del: load_loop.simps)
    qed
  qed
qed

lemma load_lookup_table_distinct_keys:
  "load_lookup_table lookup_file = Inr d \<Longrightarrow> distinct (map fst d)"
  unfolding load_lookup_table_def by (erule load_loop_distinct_keys) simp

text \<open>
  The end-to-end scenario of the specification: three lookup rules, two records on port 25
  and one on port 9999, all TCP.
\<close>

lemma end_to_end_example:
  "(case load_lookup_table [''25,tcp,sv_p1\<newline>'', ''68,udp,sv_p2\<newline>'', ''23,tcp,sv_p1''] of
      Inl e \<Rightarrow> None
    | Inr lookup_dict \<Rightarrow>
        (case parse_flow_logs
            [example_record ''25'' ''6'', example_record ''25'' ''6'', example_record ''9999'' ''6'']
            lookup_dict 1 of
           (tcs, ppcs) \<Rightarrow> Some (save_results tcs ppcs)))
   = Some (''Tag Counts:\<newline>Tag,Count\<newline>Untagged,1\<newline>sv_p1,2\<newline>''
       @ ''\<newline>Port/Protocol Combination Counts:\<newline>Port,Protocol,Count\<newline>''
       @ ''25,tcp,2\<newline>9999,tcp,1\<newline>'')"
  by code_simp

section \<open>Claims about parse_flow_logs\<close>

text \<open>
  C2.  A record with at least 14 whitespace-separated fields, processed after any prefix of
  the log, adds exactly 1 to the Port/Protocol entry of its key (field 4, resolved protocol)
  and leaves every other entry alone; it adds to each tag's entry the number of times the
  tag occurs in the resolved tag list, so the counts of the Port/Protocol table grow by 1 in
  total and those of the Tag table by the length of the tag list.
\<close>

theorem classified_record_increments:
  assumes "14 \<le> length (str_split raw)"
    and "key = (str_split raw ! 4, protocol_name (str_split raw ! 6))"
    and "tags = dict_get lookup_dict key [''Untagged'']"
    and "parse_flow_logs log_pre lookup_dict verbosity = (tcs, ppcs)"
    and "parse_flow_logs (log_pre @ [raw]) lookup_dict verbosity = (tcs', ppcs')"
  shows "dict_get ppcs' k 0 = dict_get ppcs k 0 + (if k = key then 1 else 0) \<and>
         dict_get tcs' t 0 = dict_get tcs t 0 + int (count_list tags t) \<and>
         sum_list (map snd ppcs') = sum_list (map snd ppcs) + 1 \<and>
         sum_list (map snd tcs') = sum_list (map snd tcs) + int (length tags)"
proof -
  let ?st = "parse_run log_pre lookup_dict verbosity"
  have pre: "tag_counts ?st = tcs" "port_protocol_counts ?st = ppcs"
    using assms(4) by (simp_all add: parse_flow_logs_def Let_def)
  have "parse_run (log_pre @ [raw]) lookup_dict verbosity = process_line lookup_dict verbosity raw ?st"
    by (rule parse_run_snoc)
  with assms(5) have post: "tag_counts (process_line lookup_dict verbosity raw ?st) = tcs'"
      "port_protocol_counts (process_line lookup_dict verbosity raw ?st) = ppcs'"
    by (simp_all add: parse_flow_logs_def Let_def)
  have tcs': "tcs' = count_tags tags tcs"
    using post(1) pre assms(2,3) by (simp add: process_line_classified [OF assms(1)] Let_def)
  have ppcs': "ppcs' = defaultdict_update key (\<lambda>n. n + 1) 0 ppcs"
    using post(2) pre assms(2) by (simp add: process_line_classified [OF assms(1)] Let_def)
  show ?thesis
    by (simp add: tcs' ppcs' dict_get_defaultdict_update dict_get_count_tags
          sum_defaultdict_update sum_count_tags)
qed

theorem classified_record_increments_witness:
  "14 \<le> length (str_split (example_record ''25'' ''6'')) \<and>
   parse_flow_logs [example_record ''25'' ''6''] example_lookup_dict 1
     = ([(''sv_p1'', 1), (''email'', 1)], [((''25'', ''tcp''), 1)]) \<and>
   parse_flow_logs ([example_record ''25'' ''6''] @ [example_record ''25'' ''6'']) example_lookup_dict 1
     = ([(''sv_p1'', 2), (''email'', 2)], [((''25'', ''tcp''), 2)]) \<and>
   dict_get [((''25'', ''tcp''), 2::int)] (''25'', ''tcp'') 0
     = dict_get [((''25'', ''tcp''), 1)] (''25'', ''tcp'') 0 + 1 \<and>
   sum_list (map snd [(''sv_p1'', 2::int), (''email'', 2)])
     = sum_list (map snd [(''sv_p1'', 1::int), (''email'', 1)]) + 2"
proof -
  have h1: "14 \<le> length (str_split (example_record ''25'' ''6''))"
    by code_simp
  have h2: "(''25'', ''tcp'')
      = (str_split (example_record ''25'' ''6'') ! 4,
         protocol_name (str_split (example_record ''25'' ''6'') ! 6))"
    by code_simp
  have h3: "[''sv_p1'', ''email''] = dict_get example_lookup_dict (''25'', ''tcp'') [''Untagged'']"
    by code_simp
  have h4: "parse_flow_logs [example_record ''25'' ''6''] example_lookup_dict 1
     = ([(''sv_p1'', 1), (''email'', 1)], [((''25'', ''tcp''), 1)])"
    by code_simp
  have h5: "parse_flow_logs ([example_record ''25'' ''6''] @ [example_record ''25'' ''6'']) example_lookup_dict 1
     = ([(''sv_p1'', 2), (''email'', 2)], [((''25'', ''tcp''), 2)])"
    by code_simp
  show ?thesis
    using classified_record_increments [OF h1 h2 h3 h4 h5, of "(''25'', ''tcp'')" "''sv_p1''"] h1 h4 h5
    by simp
qed

text \<open>
  C8.  Two runs of \<open>parse_flow_logs\<close> on the same log file and lookup table return the same
  pair of tables whatever the two verbosity arguments are.
\<close>

theorem verbosity_does_not_affect_counts:
  "parse_flow_logs log_file lookup_dict v = parse_flow_logs log_file lookup_dict w"
proof -
  have "same_tables (parse_run log_file lookup_dict v) (parse_run log_file lookup_dict w)"
    unfolding parse_run_def by (rule same_tables_parse_loop) (simp add: same_tables_def)
  then show ?thesis
    by (simp add: parse_flow_logs_def same_tables_def Let_def)
qed

theorem verbosity_does_not_affect_counts_witness:
  "parse_flow_logs [example_record ''25'' ''6'', example_record ''9999'' ''17''] example_lookup_dict 0
     = parse_flow_logs [example_record ''25'' ''6'', example_record ''9999'' ''17''] example_lookup_dict 2 \<and>
   logged (parse_run [example_record ''25'' ''6'', example_record ''9999'' ''17''] example_lookup_dict 0) = [] \<and>
   logged (parse_run [example_record ''25'' ''6'', example_record ''9999'' ''17''] example_lookup_dict 2)
     = [Processed ''25'' ''tcp'' [''sv_p1'', ''email''], Processed ''9999'' ''udp'' [''Untagged'']]"
proof -
  have l0: "logged (parse_run [example_record ''25'' ''6'', example_record ''9999'' ''17''] example_lookup_dict 0) = []"
    by code_simp
  have l2: "logged (parse_run [example_record ''25'' ''6'', example_record ''9999'' ''17''] example_lookup_dict 2)
     = [Processed ''25'' ''tcp'' [''sv_p1'', ''email''], Processed ''9999'' ''udp'' [''Untagged'']]"
    by code_simp
  show ?thesis
    using verbosity_does_not_affect_counts
      [of "[example_record ''25'' ''6'', example_record ''9999'' ''17'']" example_lookup_dict 0 2] l0 l2
    by simp
qed

text \<open>
  C10.  Every entry of the Tag table and of the Port/Protocol table that \<open>parse_flow_logs\<close>
  returns has a count of at least 1.
\<close>

theorem parse_flow_logs_counts_positive:
  "(\<forall>(tag, n)\<in>set (fst (parse_flow_logs log_file lookup_dict verbosity)). 1 \<le> n) \<and>
   (\<forall>(key, n)\<in>set (snd (parse_flow_logs log_file lookup_dict verbosity)). 1 \<le> n)"
proof -
  have "positive_tables \<lparr>tag_counts = [], port_protocol_counts = [], logged = []\<rparr>"
    by (simp add: positive_tables_def)
  then have "positive_tables (parse_run log_file lookup_dict verbosity)"
    unfolding parse_run_def by (rule positive_parse_loop)
  then show ?thesis
    by (auto simp: parse_flow_logs_def positive_tables_def Let_def list_all_iff)
qed

theorem parse_flow_logs_counts_positive_witness:
  "fst (parse_flow_logs [example_record ''25'' ''6'', example_record ''9999'' ''17''] example_lookup_dict 1)
     = [(''sv_p1'', 1), (''email'', 1), (''Untagged'', 1)] \<and>
   snd (parse_flow_logs [example_record ''25'' ''6'', example_record ''9999'' ''17''] example_lookup_dict 1)
     = [((''25'', ''tcp''), 1), ((''9999'', ''udp''), 1)] \<and>
   list_all (\<lambda>(tag, n). 1 \<le> n)
     (fst (parse_flow_logs [example_record ''25'' ''6'', example_record ''9999'' ''17'']
        example_lookup_dict 1)) \<and>
   list_all (\<lambda>(key, n). 1 \<le> n)
     (snd (parse_flow_logs [example_record ''25'' ''6'', example_record ''9999'' ''17'']
        example_lookup_dict 1))"
proof -
  have tcs: "fst (parse_flow_logs [example_record ''25'' ''6'', example_record ''9999'' ''17''] example_lookup_dict 1)
     = [(''sv_p1'', 1), (''email'', 1), (''Untagged'', 1)]"
    by code_simp
  have ppcs: "snd (parse_flow_logs [example_record ''25'' ''6'', example_record ''9999'' ''17''] example_lookup_dict 1)
     = [((''25'', ''tcp''), 1), ((''9999'', ''udp''), 1)]"
    by code_simp
  show ?thesis
    using parse_flow_logs_counts_positive
      [of "[example_record ''25'' ''6'', example_record ''9999'' ''17'']" example_lookup_dict 1] tcs ppcs
    by (simp add: list_all_iff)
qed

text \<open>
  C3.  A record with at least 14 fields whose key (field 4, resolved protocol) is not a key
  of the lookup table resolves to the tag list \<open>["Untagged"]\<close>, as the logged record shows:
  it adds exactly 1 to the Tag entry of \<open>Untagged\<close>, nothing to any other tag, and exactly 1 to
  the Port/Protocol entry of its key.
\<close>

theorem unmatched_record_untagged:
  assumes "14 \<le> length (str_split raw)"
    and "key = (str_split raw ! 4, protocol_name (str_split raw ! 6))"
    and "key \<notin> fst ` set lookup_dict"
    and "parse_flow_logs log_pre lookup_dict verbosity = (tcs, ppcs)"
    and "parse_flow_logs (log_pre @ [raw]) lookup_dict verbosity = (tcs', ppcs')"
  shows "dict_get lookup_dict key [''Untagged''] = [''Untagged''] \<and>
         logged (parse_run (log_pre @ [raw]) lookup_dict 2)
           = logged (parse_run log_pre lookup_dict 2) @ [Processed (fst key) (snd key) [''Untagged'']] \<and>
         dict_get tcs' t 0 = dict_get tcs t 0 + (if t = ''Untagged'' then 1 else 0) \<and>
         dict_get ppcs' k 0 = dict_get ppcs k 0 + (if k = key then 1 else 0)"
proof -
  let ?st = "parse_run log_pre lookup_dict verbosity"
  have tags: "dict_get lookup_dict key [''Untagged''] = [''Untagged'']"
    using assms(3) by (rule dict_get_absent)
  have pre: "tag_counts ?st = tcs" "port_protocol_counts ?st = ppcs"
    using assms(4) by (simp_all add: parse_flow_logs_def Let_def)
  have post: "tag_counts (process_line lookup_dict verbosity raw ?st) = tcs'"
      "port_protocol_counts (process_line lookup_dict verbosity raw ?st) = ppcs'"
    using assms(5) by (simp_all add: parse_flow_logs_def Let_def parse_run_snoc)
  have tcs': "tcs' = count_tags [''Untagged''] tcs"
    using post(1) pre assms(2) tags by (simp add: process_line_classified [OF assms(1)] Let_def)
  have ppcs': "ppcs' = defaultdict_update key (\<lambda>n. n + 1) 0 ppcs"
    using post(2) pre assms(2) by (simp add: process_line_classified [OF assms(1)] Let_def)
  have lg: "logged (parse_run (log_pre @ [raw]) lookup_dict 2)
      = logged (parse_run log_pre lookup_dict 2) @ [Processed (fst key) (snd key) [''Untagged'']]"
    using assms(2) tags by (simp add: parse_run_snoc process_line_classified [OF assms(1)] Let_def)
  show ?thesis
    using tags lg by (simp add: tcs' ppcs' dict_get_defaultdict_update dict_get_count_tags)
qed

theorem unmatched_record_untagged_witness:
  "14 \<le> length (str_split (example_record ''9999'' ''6'')) \<and>
   (''9999'', ''tcp'') \<notin> fst ` set example_lookup_dict \<and>
   parse_flow_logs [example_record ''9999'' ''6''] example_lookup_dict 1
     = ([(''Untagged'', 1)], [((''9999'', ''tcp''), 1)]) \<and>
   parse_flow_logs ([example_record ''9999'' ''6''] @ [example_record ''9999'' ''6'']) example_lookup_dict 1
     = ([(''Untagged'', 2)], [((''9999'', ''tcp''), 2)]) \<and>
   logged (parse_run ([example_record ''9999'' ''6''] @ [example_record ''9999'' ''6'']) example_lookup_dict 2)
     = logged (parse_run [example_record ''9999'' ''6''] example_lookup_dict 2)
       @ [Processed ''9999'' ''tcp'' [''Untagged'']] \<and>
   dict_get [(''Untagged'', 2::int)] ''Untagged'' 0 = dict_get [(''Untagged'', 1)] ''Untagged'' 0 + 1"
proof -
  have h1: "14 \<le> length (str_split (example_record ''9999'' ''6''))"
    by code_simp
  have h2: "(''9999'', ''tcp'')
      = (str_split (example_record ''9999'' ''6'') ! 4,
         protocol_name (str_split (example_record ''9999'' ''6'') ! 6))"
    by code_simp
  have h3: "(''9999'', ''tcp'') \<notin> fst ` set example_lookup_dict"
    by (simp add: example_lookup_dict_def)
  have h4: "parse_flow_logs [example_record ''9999'' ''6''] example_lookup_dict 1
     = ([(''Untagged'', 1)], [((''9999'', ''tcp''), 1)])"
    by code_simp
  have h5: "parse_flow_logs ([example_record ''9999'' ''6''] @ [example_record ''9999'' ''6'']) example_lookup_dict 1
     = ([(''Untagged'', 2)], [((''9999'', ''tcp''), 2)])"
    by code_simp
  show ?thesis
    using unmatched_record_untagged [OF h1 h2 h3 h4 h5, of "''Untagged''" "(''9999'', ''tcp'')"] h1 h3 h4 h5
    by simp
qed

text \<open>
  C5.  A line that is empty after stripping, or that has fewer than 14 whitespace-separated
  fields, changes nothing: the run over the file with that line gives the same tables (and
  the same log) as the run over the file without it, the lines after it being processed as
  usual.
\<close>

theorem short_record_skipped:
  assumes "str_strip raw = [] \<or> length (str_split raw) < 14"
  shows "parse_flow_logs (log_pre @ raw # log_post) lookup_dict verbosity
           = parse_flow_logs (log_pre @ log_post) lookup_dict verbosity \<and>
         parse_run (log_pre @ raw # log_post) lookup_dict verbosity
           = parse_run (log_pre @ log_post) lookup_dict verbosity"
proof -
  have "parse_run (log_pre @ raw # log_post) lookup_dict verbosity
      = parse_run (log_pre @ log_post) lookup_dict verbosity"
    using process_line_skip [OF assms] by (simp add: parse_run_append)
  then show ?thesis by (simp add: parse_flow_logs_def)
qed

theorem short_record_skipped_witness:
  "length (str_split ''2 123 eni-0a 10.0.1.2 25 49153 6 25 20000 1620 1621 ACCEPT OK\<newline>'') = 13 \<and>
   str_strip '' \<newline>'' = [] \<and>
   parse_flow_logs ([example_record ''25'' ''6'']
       @ ''2 123 eni-0a 10.0.1.2 25 49153 6 25 20000 1620 1621 ACCEPT OK\<newline>'' # [example_record ''68'' ''17''])
       example_lookup_dict 2
     = parse_flow_logs ([example_record ''25'' ''6''] @ [example_record ''68'' ''17'']) example_lookup_dict 2 \<and>
   parse_run ([example_record ''25'' ''6''] @ '' \<newline>'' # [example_record ''68'' ''17'']) example_lookup_dict 2
     = parse_run ([example_record ''25'' ''6''] @ [example_record ''68'' ''17'']) example_lookup_dict 2 \<and>
   parse_flow_logs ([example_record ''25'' ''6''] @ [example_record ''68'' ''17'']) example_lookup_dict 2
     = ([(''sv_p1'', 1), (''email'', 1), (''sv_p2'', 1)], [((''25'', ''tcp''), 1), ((''68'', ''udp''), 1)])"
proof -
  have h1: "length (str_split ''2 123 eni-0a 10.0.1.2 25 49153 6 25 20000 1620 1621 ACCEPT OK\<newline>'') = 13"
    by code_simp
  have h2: "str_strip '' \<newline>'' = []"
    by code_simp
  have h3: "parse_flow_logs ([example_record ''25'' ''6''] @ [example_record ''68'' ''17'']) example_lookup_dict 2
     = ([(''sv_p1'', 1), (''email'', 1), (''sv_p2'', 1)], [((''25'', ''tcp''), 1), ((''68'', ''udp''), 1)])"
    by code_simp
  show ?thesis
    using short_record_skipped [of "''2 123 eni-0a 10.0.1.2 25 49153 6 25 20000 1620 1621 ACCEPT OK\<newline>''"
        "[example_record ''25'' ''6'']" "[example_record ''68'' ''17'']" example_lookup_dict 2]
      short_record_skipped [of "'' \<newline>''"
        "[example_record ''25'' ''6'']" "[example_record ''68'' ''17'']" example_lookup_dict 2]
      h1 h2 h3
    by simp
qed

text \<open>
  C4.  Protocol resolution maps \<open>"6"\<close> to \<open>"tcp"\<close>, \<open>"17"\<close> to \<open>"udp"\<close> and every other string,
  \<open>"1"\<close> and \<open>"99"\<close> among them, to \<open>"icmp"\<close>; it is the protocol under which a record with at
  least 14 fields is counted, field 6 being the protocol number.
\<close>

theorem protocol_resolution:
  "protocol_name ''6'' = ''tcp'' \<and> protocol_name ''17'' = ''udp'' \<and>
   protocol_name ''1'' = ''icmp'' \<and> protocol_name ''99'' = ''icmp'' \<and>
   (\<forall>p. p \<noteq> ''6'' \<and> p \<noteq> ''17'' \<longrightarrow> protocol_name p = ''icmp'') \<and>
   (\<forall>raw lookup_dict verbosity. 14 \<le> length (str_split raw) \<longrightarrow>
      snd (parse_flow_logs [raw] lookup_dict verbosity)
        = [((str_split raw ! 4, protocol_name (str_split raw ! 6)), 1)])"
proof -
  have "snd (parse_flow_logs [raw] lookup_dict verbosity)
        = [((str_split raw ! 4, protocol_name (str_split raw ! 6)), 1)]"
    if "14 \<le> length (str_split raw)" for raw lookup_dict verbosity
    using parse_run_snoc [of "[]" raw lookup_dict verbosity]
    by (simp add: parse_flow_logs_def process_line_classified [OF that] Let_def parse_run_def)
  then show ?thesis
    by (simp add: protocol_name_def)
qed

theorem protocol_resolution_witness:
  "protocol_name ''47'' = ''icmp'' \<and> protocol_name '' 6'' = ''icmp'' \<and>
   14 \<le> length (str_split (example_record ''53'' ''17'')) \<and>
   snd (parse_flow_logs [example_record ''53'' ''17''] example_lookup_dict 1) = [((''53'', ''udp''), 1)]"
proof -
  have h: "14 \<le> length (str_split (example_record ''53'' ''17''))"
    by code_simp
  have e: "str_split (example_record ''53'' ''17'') ! 4 = ''53''"
      "str_split (example_record ''53'' ''17'') ! 6 = ''17''"
    by code_simp+
  show ?thesis
    using protocol_resolution h e by simp
qed

section \<open>Claims about load_lookup_table\<close>

text \<open>
  C6.  When every line of the lookup file is either skipped by the guard or well-formed,
  \<open>load_lookup_table\<close> returns a table, and the table maps each key to the tags of the
  well-formed lines with that key, in file order; a key with no such line is absent.
\<close>

theorem load_lookup_table_order_preserving:
  assumes "\<forall>raw\<in>set lookup_file. skipped_line raw \<or> lookup_entry raw \<noteq> None"
  shows "\<exists>lookup_dict. load_lookup_table lookup_file = Inr lookup_dict \<and>
     (\<forall>k. map_of lookup_dict k =
        (if tags_in_file_order lookup_file k = [] then None
         else Some (tags_in_file_order lookup_file k)))"
proof -
  from load_loop_tags [OF assms, of "[]"] obtain d where
    d: "load_loop lookup_file [] = Inr d" "\<forall>k. dict_get d k [] = tags_in_file_order lookup_file k"
    by (auto simp: dict_get_def)
  from d(1) have "list_all (\<lambda>x. snd x \<noteq> []) d"
    by (rule load_loop_nonempty) simp
  then have "map_of d k = (if dict_get d k [] = [] then None else Some (dict_get d k []))" for k
    by (rule map_of_nonempty_dict)
  with d show ?thesis
    by (simp add: load_lookup_table_def)
qed

theorem load_lookup_table_order_preserving_witness:
  "list_all (\<lambda>raw. skipped_line raw \<or> lookup_entry raw \<noteq> None) example_lookup_file \<and>
   lookup_entry (example_lookup_file ! 2) = Some ((''25'', ''tcp''), ''sv_p1'') \<and>
   lookup_entry (example_lookup_file ! 6) = Some ((''25'', ''tcp''), ''email'') \<and>
   load_lookup_table example_lookup_file
     = Inr [((''dstport'', ''protocol''), [''tag'']), ((''68'', ''udp''), [''sv_p2'']),
            ((''25'', ''tcp''), [''sv_p1'', ''email'']), ((''443'', ''tcp''), [''sv_p2''])] \<and>
   tags_in_file_order example_lookup_file (''25'', ''tcp'') = [''sv_p1'', ''email'']"
proof -
  have h: "list_all (\<lambda>raw. skipped_line raw \<or> lookup_entry raw \<noteq> None) example_lookup_file"
    by code_simp
  have e: "lookup_entry (example_lookup_file ! 2) = Some ((''25'', ''tcp''), ''sv_p1'')"
      "lookup_entry (example_lookup_file ! 6) = Some ((''25'', ''tcp''), ''email'')"
    by code_simp+
  have l: "load_lookup_table example_lookup_file
     = Inr [((''dstport'', ''protocol''), [''tag'']), ((''68'', ''udp''), [''sv_p2'']),
            ((''25'', ''tcp''), [''sv_p1'', ''email'']), ((''443'', ''tcp''), [''sv_p2''])]"
    by code_simp
  from h have h': "\<forall>raw\<in>set example_lookup_file. skipped_line raw \<or> lookup_entry raw \<noteq> None"
    by (simp only: list_all_iff)
  from load_lookup_table_order_preserving [OF h'] obtain d where
    d: "load_lookup_table example_lookup_file = Inr d"
    and m: "map_of d (''25'', ''tcp'') =
        (if tags_in_file_order example_lookup_file (''25'', ''tcp'') = [] then None
         else Some (tags_in_file_order example_lookup_file (''25'', ''tcp'')))"
    by blast
  from d l have "d = [((''dstport'', ''protocol''), [''tag'']), ((''68'', ''udp''), [''sv_p2'']),
            ((''25'', ''tcp''), [''sv_p1'', ''email'']), ((''443'', ''tcp''), [''sv_p2''])]"
    by simp
  then have "map_of d (''25'', ''tcp'') = Some [''sv_p1'', ''email'']"
    by simp
  with m have "tags_in_file_order example_lookup_file (''25'', ''tcp'') = [''sv_p1'', ''email'']"
    by (simp split: if_splits)
  with h e l show ?thesis by simp
qed

text \<open>
  C9.  A line made of three comma-free fields \<open>port,proto,tag\<close>, with any whitespace around
  the fields, is stored after the lines before it under the key (lowercased trimmed port,
  lowercased trimmed protocol), and the tag appended to that key's list is the lowercased
  trimmed tag: the casing of the tag in the file is lost.
\<close>

theorem lookup_line_fields_normalised:
  assumes "CHR '','' \<notin> set port" and "CHR '','' \<notin> set proto" and "CHR '','' \<notin> set tag"
    and "load_lookup_table lookup_pre = Inr lookup_dict"
  shows "load_lookup_table (lookup_pre @ [port @ '','' @ proto @ '','' @ tag])
     = Inr (defaultdict_update (str_lower (str_strip port), str_lower (str_strip proto))
              (\<lambda>tags. tags @ [str_lower (str_strip tag)]) [] lookup_dict)"
proof -
  have "load_loop [port @ '','' @ proto @ '','' @ tag] lookup_dict
     = Inr (defaultdict_update (str_lower (str_strip port), str_lower (str_strip proto))
              (\<lambda>tags. tags @ [str_lower (str_strip tag)]) [] lookup_dict)"
    using load_loop_entry [OF lookup_entry_three_fields [OF assms(1,2,3)], of "[]" lookup_dict]
    by simp
  with assms(4) show ?thesis
    by (simp add: load_lookup_table_def load_loop_append)
qed

theorem lookup_line_fields_normalised_witness:
  "load_lookup_table [''25,tcp,sv_P1\<newline>''] = Inr [((''25'', ''tcp''), [''sv_p1''])] \<and>
   str_lower (str_strip '' 25 '') = ''25'' \<and> str_lower (str_strip '' TCP'') = ''tcp'' \<and>
   str_lower (str_strip ''  E-Mail \<newline>'') = ''e-mail'' \<and>
   load_lookup_table ([''25,tcp,sv_P1\<newline>''] @ ['' 25 '' @ '','' @ '' TCP'' @ '','' @ ''  E-Mail \<newline>''])
     = Inr [((''25'', ''tcp''), [''sv_p1'', ''e-mail''])]"
proof -
  have h1: "CHR '','' \<notin> set '' 25 ''" and h2: "CHR '','' \<notin> set '' TCP''"
    and h3: "CHR '','' \<notin> set ''  E-Mail \<newline>''"
    by simp_all
  have h4: "load_lookup_table [''25,tcp,sv_P1\<newline>''] = Inr [((''25'', ''tcp''), [''sv_p1''])]"
    by code_simp
  have n: "str_lower (str_strip '' 25 '') = ''25''" "str_lower (str_strip '' TCP'') = ''tcp''"
      "str_lower (str_strip ''  E-Mail \<newline>'') = ''e-mail''"
    by code_simp+
  show ?thesis
    using lookup_line_fields_normalised [OF h1 h2 h3 h4] h4 n by simp
qed

text \<open>
  C1.  A lookup file whose first line \<open>25,tcp\<close> has one comma only: the line passes the guard,
  the unpacking into three names fails, and \<open>load_lookup_table\<close> raises \<open>ValueError\<close> instead
  of skipping the line and loading the well-formed line after it.
\<close>

theorem one_comma_line_raises:
  "load_lookup_table [''25,tcp\<newline>'', ''23,tcp,sv_p1\<newline>''] = Inl ValueError"
  by code_simp

section \<open>Claims about save_results\<close>

text \<open>
  C7.  The text \<open>save_results\<close> writes is the header \<open>Tag Counts:\<close>, \<open>Tag,Count\<close>, one line
  \<open>tag,count\<close> per entry of the Tag table in ascending order of the tag strings, a blank line,
  the header \<open>Port/Protocol Combination Counts:\<close>, \<open>Port,Protocol,Count\<close>, and one line
  \<open>port,protocol,count\<close> per entry of the Port/Protocol table in ascending lexicographic order
  of the (port, protocol) pairs of strings, strictly ascending as the keys of a dict are
  distinct.  The text depends on the entries only, not on their insertion order, so the same
  two tables always give the same text.  Ports are compared as strings: \<open>100\<close> is written
  before \<open>25\<close>.
\<close>

theorem save_results_layout:
  "(\<exists>tag_items port_protocol_items.
      save_results tcs ppcs =
        ''Tag Counts:\<newline>'' @ ''Tag,Count\<newline>''
        @ concat (map (\<lambda>(tag, n). tag @ '','' @ str_int n @ ''\<newline>'') tag_items)
        @ ''\<newline>'' @ ''Port/Protocol Combination Counts:\<newline>'' @ ''Port,Protocol,Count\<newline>''
        @ concat (map (\<lambda>((port, protocol), n). port @ '','' @ protocol @ '','' @ str_int n @ ''\<newline>'')
            port_protocol_items)
      \<and> mset tag_items = mset tcs \<and> sorted (map fst tag_items)
      \<and> (distinct (map fst tcs) \<longrightarrow> sorted_wrt (<) (map fst tag_items))
      \<and> mset port_protocol_items = mset ppcs \<and> sorted (map fst port_protocol_items)
      \<and> (distinct (map fst ppcs) \<longrightarrow> sorted_wrt (<) (map fst port_protocol_items)))
   \<and> (mset tcs' = mset tcs \<and> mset ppcs' = mset ppcs
        \<longrightarrow> save_results tcs' ppcs' = save_results tcs ppcs)"
proof -
  have rows: "tag_row = (\<lambda>(tag, n). tag @ '','' @ str_int n @ ''\<newline>'')"
      "port_protocol_row = (\<lambda>((port, protocol), n). port @ '','' @ protocol @ '','' @ str_int n @ ''\<newline>'')"
    by (auto simp: tag_row_def port_protocol_row_def fun_eq_iff)
  have layout: "save_results tcs ppcs =
        ''Tag Counts:\<newline>'' @ ''Tag,Count\<newline>''
        @ concat (map (\<lambda>(tag, n). tag @ '','' @ str_int n @ ''\<newline>'') (sort tcs))
        @ ''\<newline>'' @ ''Port/Protocol Combination Counts:\<newline>'' @ ''Port,Protocol,Count\<newline>''
        @ concat (map (\<lambda>((port, protocol), n). port @ '','' @ protocol @ '','' @ str_int n @ ''\<newline>'')
            (sort ppcs))"
    unfolding save_results_def rows by simp
  have t: "mset (sort tcs) = mset tcs" "sorted (map fst (sort tcs))"
      "distinct (map fst tcs) \<longrightarrow> sorted_wrt (<) (map fst (sort tcs))"
    by (simp_all add: sorted_map_fst strict_sorted_iff distinct_keys_sort)
  have p: "mset (sort ppcs) = mset ppcs" "sorted (map fst (sort ppcs))"
      "distinct (map fst ppcs) \<longrightarrow> sorted_wrt (<) (map fst (sort ppcs))"
    by (simp_all add: sorted_map_fst strict_sorted_iff distinct_keys_sort)
  have det: "mset tcs' = mset tcs \<and> mset ppcs' = mset ppcs
        \<longrightarrow> save_results tcs' ppcs' = save_results tcs ppcs"
  proof
    assume "mset tcs' = mset tcs \<and> mset ppcs' = mset ppcs"
    then have "sort tcs' = sort tcs" "sort ppcs' = sort ppcs"
      by (blast intro: sort_mset_cong)+
    then show "save_results tcs' ppcs' = save_results tcs ppcs"
      by (simp only: save_results_def)
  qed
  from layout t p have "\<exists>tag_items port_protocol_items.
      save_results tcs ppcs =
        ''Tag Counts:\<newline>'' @ ''Tag,Count\<newline>''
        @ concat (map (\<lambda>(tag, n). tag @ '','' @ str_int n @ ''\<newline>'') tag_items)
        @ ''\<newline>'' @ ''Port/Protocol Combination Counts:\<newline>'' @ ''Port,Protocol,Count\<newline>''
        @ concat (map (\<lambda>((port, protocol), n). port @ '','' @ protocol @ '','' @ str_int n @ ''\<newline>'')
            port_protocol_items)
      \<and> mset tag_items = mset tcs \<and> sorted (map fst tag_items)
      \<and> (distinct (map fst tcs) \<longrightarrow> sorted_wrt (<) (map fst tag_items))
      \<and> mset port_protocol_items = mset ppcs \<and> sorted (map fst port_protocol_items)
      \<and> (distinct (map fst ppcs) \<longrightarrow> sorted_wrt (<) (map fst port_protocol_items))"
    by blast
  with det show ?thesis by (rule conjI [rotated])
qed


theorem save_results_layout_witness:
  "save_results [(''sv_p1'', 2), (''Untagged'', 1)]
       [((''25'', ''tcp''), 2), ((''9999'', ''tcp''), 1), ((''100'', ''udp''), 13)]
     = ''Tag Counts:\<newline>Tag,Count\<newline>Untagged,1\<newline>sv_p1,2\<newline>''
       @ ''\<newline>Port/Protocol Combination Counts:\<newline>Port,Protocol,Count\<newline>''
       @ ''100,udp,13\<newline>25,tcp,2\<newline>9999,tcp,1\<newline>'' \<and>
   mset [(''Untagged'', 1), (''sv_p1'', 2::int)] = mset [(''sv_p1'', 2), (''Untagged'', 1)] \<and>
   mset [((''100'', ''udp''), 13), ((''9999'', ''tcp''), 1), ((''25'', ''tcp''), 2::int)]
     = mset [((''25'', ''tcp''), 2), ((''9999'', ''tcp''), 1), ((''100'', ''udp''), 13)] \<and>
   save_results [(''Untagged'', 1), (''sv_p1'', 2)]
       [((''100'', ''udp''), 13), ((''9999'', ''tcp''), 1), ((''25'', ''tcp''), 2)]
     = save_results [(''sv_p1'', 2), (''Untagged'', 1)]
       [((''25'', ''tcp''), 2), ((''9999'', ''tcp''), 1), ((''100'', ''udp''), 13)]"
proof -
  have e: "save_results [(''sv_p1'', 2), (''Untagged'', 1)]
       [((''25'', ''tcp''), 2), ((''9999'', ''tcp''), 1), ((''100'', ''udp''), 13)]
     = ''Tag Counts:\<newline>Tag,Count\<newline>Untagged,1\<newline>sv_p1,2\<newline>''
       @ ''\<newline>Port/Protocol Combination Counts:\<newline>Port,Protocol,Count\<newline>''
       @ ''100,udp,13\<newline>25,tcp,2\<newline>9999,tcp,1\<newline>''"
    by code_simp
  have m1: "mset [(''Untagged'', 1), (''sv_p1'', 2::int)] = mset [(''sv_p1'', 2), (''Untagged'', 1)]"
    by simp
  have m2: "mset [((''100'', ''udp''), 13), ((''9999'', ''tcp''), 1), ((''25'', ''tcp''), 2::int)]
     = mset [((''25'', ''tcp''), 2), ((''9999'', ''tcp''), 1), ((''100'', ''udp''), 13)]"
    by simp
  from save_results_layout [of "[(''sv_p1'', 2), (''Untagged'', 1)]"
      "[((''25'', ''tcp''), 2), ((''9999'', ''tcp''), 1), ((''100'', ''udp''), 13)]"
      "[(''Untagged'', 1), (''sv_p1'', 2)]"
      "[((''100'', ''udp''), 13), ((''9999'', ''tcp''), 1), ((''25'', ''tcp''), 2)]"]
  have "mset [(''Untagged'', 1), (''sv_p1'', 2::int)] = mset [(''sv_p1'', 2), (''Untagged'', 1)] \<and>
      mset [((''100'', ''udp''), 13), ((''9999'', ''tcp''), 1), ((''25'', ''tcp''), 2::int)]
        = mset [((''25'', ''tcp''), 2), ((''9999'', ''tcp''), 1), ((''100'', ''udp''), 13)]
      \<longrightarrow> save_results [(''Untagged'', 1), (''sv_p1'', 2)]
             [((''100'', ''udp''), 13), ((''9999'', ''tcp''), 1), ((''25'', ''tcp''), 2)]
         = save_results [(''sv_p1'', 2), (''Untagged'', 1)]
             [((''25'', ''tcp''), 2), ((''9999'', ''tcp''), 1), ((''100'', ''udp''), 13)]"
    by (rule conjunct2)
  with m1 m2 have "save_results [(''Untagged'', 1), (''sv_p1'', 2)]
             [((''100'', ''udp''), 13), ((''9999'', ''tcp''), 1), ((''25'', ''tcp''), 2)]
         = save_results [(''sv_p1'', 2), (''Untagged'', 1)]
             [((''25'', ''tcp''), 2), ((''9999'', ''tcp''), 1), ((''100'', ''udp''), 13)]"
    by blast
  with e m1 m2 show ?thesis by (intro conjI)
qed

end
